theory Spec2Isabelle
  imports Complex_Main "HOL-Library.Word" "HOL-Library.Multiset" "HOL-Library.Log_Nat"
begin

section \<open>Data model of \<^verbatim>\<open>src/app.py\<close>\<close>

text \<open>
  An image is a NumPy array of shape \<open>(height, width, 3)\<close> with 8-bit samples. The record
  keeps the two leading entries of \<^verbatim>\<open>image.shape\<close> and the sample triple at every row and
  column. The triple is stored in array order (channel 0, 1, 2), whatever colour order the
  array is meant to carry.
\<close>

type_synonym pixel = "8 word \<times> 8 word \<times> 8 word"

record image =
  shape0 :: nat
  shape1 :: nat
  px :: "nat \<Rightarrow> nat \<Rightarrow> pixel"

text \<open>The exceptions that the script can meet; none of them is caught anywhere in the file.\<close>

datatype error = CvError | IndexError | ValueError | ZeroDivisionError | OverflowError

text \<open>\<^verbatim>\<open>cv2.KeyPoint\<close> (only \<^verbatim>\<open>.pt\<close> is read) and \<^verbatim>\<open>cv2.DMatch\<close>.\<close>

record keypoint =
  pt :: "rat \<times> rat"

record dmatch =
  queryIdx :: nat
  trainIdx :: nat
  distance :: rat

type_synonym descriptors = "rat list list"
type_synonym homography = "rat list list"
type_synonym gray = "nat \<Rightarrow> nat \<Rightarrow> 8 word"

text \<open>
  The OpenCV primitives whose results the script only passes on. They are parameters of
  the model: the feature detector, the brute-force matcher with cross-check, the RANSAC
  solver (its first component is \<open>None\<close> when no transform is found, as the Python binding
  returns \<^verbatim>\<open>None\<close> for an empty matrix), the grey conversion, the resampling of
  \<^verbatim>\<open>warpPerspective\<close>, the resampling of \<^verbatim>\<open>resize\<close> with \<^verbatim>\<open>INTER_AREA\<close> and the decoder \<^verbatim>\<open>cv2.imdecode\<close> (\<open>Inr None\<close> for bytes that are no image; OpenCV
  asserts that the buffer is not empty, so the decoder may also raise).
\<close>

record cv2 =
  RGB2GRAY :: "image \<Rightarrow> gray"
  detectAndCompute :: "nat \<Rightarrow> nat \<Rightarrow> gray \<Rightarrow> keypoint list \<times> descriptors option"
  bf_match :: "descriptors option \<Rightarrow> descriptors option \<Rightarrow> error + dmatch list"
  findHomography :: "(rat \<times> rat) list \<Rightarrow> (rat \<times> rat) list \<Rightarrow> rat \<Rightarrow> homography option \<times> nat list option"
  warp_px :: "image \<Rightarrow> homography \<Rightarrow> nat \<times> nat \<Rightarrow> nat \<Rightarrow> nat \<Rightarrow> pixel"
  area_px :: "image \<Rightarrow> nat \<times> nat \<Rightarrow> nat \<Rightarrow> nat \<Rightarrow> pixel"
  imdecode :: "8 word list \<Rightarrow> error + image option"

subsection \<open>Library calls with a fixed meaning\<close>

text \<open>
  \<^verbatim>\<open>cv2.cvtColor(img, cv2.COLOR_BGR2RGB)\<close> exchanges channel 0 and channel 2 of every sample and
  keeps the shape. OpenCV asserts that the source is not empty.
\<close>

definition swap_channels :: "pixel \<Rightarrow> pixel" where
  "swap_channels p = (case p of (c0, c1, c2) \<Rightarrow> (c2, c1, c0))"

definition cvtColor_BGR2RGB :: "image \<Rightarrow> error + image" where
  "cvtColor_BGR2RGB img =
     (if shape0 img = 0 \<or> shape1 img = 0 then Inl CvError
      else Inr (img\<lparr>px := (\<lambda>r c. swap_channels (px img r c))\<rparr>))"

definition cvtColor_RGB2GRAY :: "cv2 \<Rightarrow> image \<Rightarrow> error + (nat \<times> nat \<times> gray)" where
  "cvtColor_RGB2GRAY cv img =
     (if shape0 img = 0 \<or> shape1 img = 0 then Inl CvError
      else Inr (shape0 img, shape1 img, RGB2GRAY cv img))"

text \<open>
  \<^verbatim>\<open>cv2.warpPerspective(src, M, (width, height))\<close>: the binding rejects \<^verbatim>\<open>M = None\<close>, OpenCV
  asserts a non-empty source, and the destination has the size \<open>dsize\<close> (the size of the
  source when \<open>dsize\<close> is empty). The samples come from the resampling parameter.
\<close>

definition warpPerspective :: "cv2 \<Rightarrow> image \<Rightarrow> homography option \<Rightarrow> nat \<times> nat \<Rightarrow> error + image" where
  "warpPerspective cv src M dsize =
     (case M of
        None \<Rightarrow> Inl CvError
      | Some H \<Rightarrow>
          if shape0 src = 0 \<or> shape1 src = 0 then Inl CvError
          else (case dsize of (width, height) \<Rightarrow>
            let w = (if width = 0 \<or> height = 0 then shape1 src else width);
                h = (if width = 0 \<or> height = 0 then shape0 src else height)
            in Inr \<lparr>shape0 = h, shape1 = w, px = warp_px cv src H (w, h)\<rparr>))"

subsection \<open>NumPy slice assignment\<close>

text \<open>
  \<^verbatim>\<open>slice(start, stop).indices(n)\<close> for step 1: a negative bound counts from the end, and both
  bounds are clipped to \<open>[0, n]\<close>. The result is the first index and the number of indices.
\<close>

definition slice_indices :: "int \<Rightarrow> int \<Rightarrow> nat \<Rightarrow> nat \<times> nat" where
  "slice_indices start stop n =
     (let clip = (\<lambda>i. if i < 0 then max (i + int n) 0 else min i (int n));
          lo = clip start; hi = clip stop
      in (nat lo, nat (max (hi - lo) 0)))"

text \<open>
  \<^verbatim>\<open>dst[r0:r1, c0:c1] = src\<close> for two arrays with three channels. The selected block has the
  clipped extent; \<open>src\<close> is broadcast to it, which NumPy allows along an axis when the
  extents agree or \<open>src\<close> has extent 1 there, and refuses with a ValueError otherwise.
\<close>

definition setitem :: "image \<Rightarrow> int \<times> int \<Rightarrow> int \<times> int \<Rightarrow> image \<Rightarrow> error + image" where
  "setitem dst rows cols src =
     (case slice_indices (fst rows) (snd rows) (shape0 dst) of (r0, nr) \<Rightarrow>
      case slice_indices (fst cols) (snd cols) (shape1 dst) of (c0, nc) \<Rightarrow>
        if (shape0 src = nr \<or> shape0 src = 1) \<and> (shape1 src = nc \<or> shape1 src = 1) then
          Inr (dst\<lparr>px := (\<lambda>r c.
                 if r0 \<le> r \<and> r < r0 + nr \<and> c0 \<le> c \<and> c < c0 + nc
                 then px src (if shape0 src = 1 then 0 else r - r0)
                             (if shape1 src = 1 then 0 else c - c0)
                 else px dst r c)\<rparr>)
        else Inl ValueError)"

section \<open>The pairwise stitch\<close>

text \<open>\<^verbatim>\<open>key_points_matching\<close>: the matcher's list, sorted by \<^verbatim>\<open>sorted(..., key=lambda x: x.distance)\<close>
  (a stable sort).\<close>

definition key_points_matching ::
  "cv2 \<Rightarrow> descriptors option \<Rightarrow> descriptors option \<Rightarrow> error + dmatch list" where
  "key_points_matching cv features_train_img features_query_img =
     (case bf_match cv features_train_img features_query_img of
        Inl e \<Rightarrow> Inl e
      | Inr best_matches \<Rightarrow> Inr (sort_key distance best_matches))"

text \<open>\<^verbatim>\<open>[kps[i] for m in matches]\<close>: an index past the end raises IndexError.\<close>

fun gather :: "(rat \<times> rat) list \<Rightarrow> nat list \<Rightarrow> error + (rat \<times> rat) list" where
  "gather kps [] = Inr []"
| "gather kps (i # is) =
     (if i < length kps then
        (case gather kps is of Inl e \<Rightarrow> Inl e | Inr ps \<Rightarrow> Inr (kps ! i # ps))
      else Inl IndexError)"

text \<open>\<^verbatim>\<open>homography_stitching\<close>: \<open>Inr None\<close> is the Python \<^verbatim>\<open>return None\<close>.\<close>

definition homography_stitching ::
  "cv2 \<Rightarrow> keypoint list \<Rightarrow> keypoint list \<Rightarrow> dmatch list \<Rightarrow> rat \<Rightarrow>
   error + (dmatch list \<times> homography option \<times> nat list option) option" where
  "homography_stitching cv keypoints_train_img keypoints_query_img matches reprojThresh =
     (let kps_train = map pt keypoints_train_img;
          kps_query = map pt keypoints_query_img
      in if length matches > 4 then
           (case gather kps_train (map queryIdx matches) of
              Inl e \<Rightarrow> Inl e
            | Inr points_train \<Rightarrow>
           (case gather kps_query (map trainIdx matches) of
              Inl e \<Rightarrow> Inl e
            | Inr points_query \<Rightarrow>
                (case findHomography cv points_train points_query reprojThresh of
                   (H, status) \<Rightarrow> Inr (Some (matches, H, status)))))
         else Inr None)"

text \<open>
  The part of \<^verbatim>\<open>stitch_images\<close> up to the matching: colour conversions, feature detection
  on the grey images, matching. It returns the two colour images in RGB order, the two
  keypoint lists and the sorted matches.
\<close>

definition detect ::
  "cv2 \<Rightarrow> image \<Rightarrow> error + (image \<times> keypoint list \<times> descriptors option)" where
  "detect cv img =
     (case cvtColor_BGR2RGB img of
        Inl e \<Rightarrow> Inl e
      | Inr photo \<Rightarrow>
     (case cvtColor_RGB2GRAY cv photo of
        Inl e \<Rightarrow> Inl e
      | Inr (h, w, photo_gray) \<Rightarrow>
          (case detectAndCompute cv h w photo_gray of
             (keypoints, features) \<Rightarrow> Inr (photo, keypoints, features))))"

definition stitch_matches :: "cv2 \<Rightarrow> image \<Rightarrow> image \<Rightarrow> error + dmatch list" where
  "stitch_matches cv train_image query_image =
     (case detect cv train_image of
        Inl e \<Rightarrow> Inl e
      | Inr (train_photo, keypoints_train_img, features_train_img) \<Rightarrow>
     (case detect cv query_image of
        Inl e \<Rightarrow> Inl e
      | Inr (query_photo, keypoints_query_img, features_query_img) \<Rightarrow>
          key_points_matching cv features_train_img features_query_img))"

text \<open>
  \<^verbatim>\<open>stitch_images\<close>. \<open>Inl e\<close>: an exception leaves the function; \<open>Inr None\<close>: it returns
  \<^verbatim>\<open>None\<close>; \<open>Inr (Some result)\<close>: it returns the panorama.
\<close>

definition stitch_images :: "cv2 \<Rightarrow> image \<Rightarrow> image \<Rightarrow> error + image option" where
  "stitch_images cv train_image query_image =
     (case detect cv train_image of
        Inl e \<Rightarrow> Inl e
      | Inr (train_photo, keypoints_train_img, features_train_img) \<Rightarrow>
     (case detect cv query_image of
        Inl e \<Rightarrow> Inl e
      | Inr (query_photo, keypoints_query_img, features_query_img) \<Rightarrow>
     (case key_points_matching cv features_train_img features_query_img of
        Inl e \<Rightarrow> Inl e
      | Inr matches \<Rightarrow>
     (case homography_stitching cv keypoints_train_img keypoints_query_img matches 4 of
        Inl e \<Rightarrow> Inl e
      | Inr None \<Rightarrow> Inr None
      | Inr (Some (matches', Homography_Matrix, status)) \<Rightarrow>
          (let width = shape1 query_photo + shape1 train_photo;
               height = max (shape0 query_photo) (shape0 train_photo)
           in case warpPerspective cv train_photo Homography_Matrix (width, height) of
                Inl e \<Rightarrow> Inl e
              | Inr result \<Rightarrow>
                  (case setitem result (0, int (shape0 query_photo))
                                       (0, int (shape1 query_photo)) query_photo of
                     Inl e \<Rightarrow> Inl e
                   | Inr result' \<Rightarrow> Inr (Some result')))))))"

section \<open>The script around the stitch\<close>

text \<open>
  What one run of the Streamlit script does is recorded as the list of its effects, in
  order: the widgets it writes, the calls of \<^verbatim>\<open>stitch_images\<close> it makes, the file it writes.
  \<open>ColImage\<close> is \<^verbatim>\<open>col.image(img)\<close> in the row of uploaded images; \<open>ShowImage\<close> is
  \<^verbatim>\<open>st.image(result_image, caption=...)\<close>, the display of the panorama.
\<close>

datatype event =
    Title string
  | WriteText string
  | Error string
  | Subheader string
  | ColImage image
  | Spinner string
  | CallStitch image image
  | ShowImage image string
  | ImWrite string image
  | DownloadButton string string string

text \<open>
  \<^verbatim>\<open>[cv2.imdecode(...) for uploaded_file in uploaded_files]\<close>: the list of decoder results,
  unless the decoder raises on some file.
\<close>

fun read_images :: "cv2 \<Rightarrow> 8 word list list \<Rightarrow> error + image option list" where
  "read_images cv [] = Inr []"
| "read_images cv (uploaded_file # uploaded_files) =
     (case imdecode cv uploaded_file of
        Inl e \<Rightarrow> Inl e
      | Inr img \<Rightarrow>
          (case read_images cv uploaded_files of
             Inl e \<Rightarrow> Inl e
           | Inr images \<Rightarrow> Inr (img # images)))"

text \<open>
  The loop \<^verbatim>\<open>for i in range(1, len(images))\<close>: the running panorama, the images still to
  come. It returns the effects and the final value of \<^verbatim>\<open>stitched_image\<close> (\<open>Inr None\<close> after the
  \<^verbatim>\<open>break\<close>), or the exception that left the loop.
\<close>

fun stitch_loop :: "cv2 \<Rightarrow> image \<Rightarrow> image list \<Rightarrow> event list \<times> (error + image option)" where
  "stitch_loop cv stitched_image [] = ([], Inr (Some stitched_image))"
| "stitch_loop cv stitched_image (img # images) =
     (case stitch_images cv stitched_image img of
        Inl e \<Rightarrow> ([CallStitch stitched_image img], Inl e)
      | Inr None \<Rightarrow>
          ([CallStitch stitched_image img,
            Error ''Error stitching images. Please ensure the images overlap sufficiently.''],
           Inr None)
      | Inr (Some stitched_image') \<Rightarrow>
          (case stitch_loop cv stitched_image' images of
             (events, r) \<Rightarrow> (CallStitch stitched_image img # events, r)))"

text \<open>The block under \<^verbatim>\<open>if stitched_image is not None\<close>.\<close>

definition show_result :: "image \<Rightarrow> event list \<times> error option" where
  "show_result stitched_image =
     (case cvtColor_BGR2RGB stitched_image of
        Inl e \<Rightarrow> ([], Some e)
      | Inr result_image \<Rightarrow>
          ([ShowImage result_image ''Stitched Image'',
            ImWrite ''stitched_image.jpg'' stitched_image,
            DownloadButton ''Download Stitched Image'' ''stitched_image.jpg'' ''image/jpeg''],
           None))"

text \<open>
  The whole script for one list of uploaded files: the effects, and the exception that
  ended the run, if any. \<open>those\<close> gives the decoded images when none of them is \<^verbatim>\<open>None\<close>.
\<close>

definition run_app :: "cv2 \<Rightarrow> 8 word list list \<Rightarrow> event list \<times> error option" where
  "run_app cv uploaded_files =
     (let header = [Title ''Image Stitching App'',
                    WriteText ''Upload multiple images to stitch them together.'']
      in if uploaded_files = [] then (header, None)
         else (case read_images cv uploaded_files of
            Inl e \<Rightarrow> (header, Some e)
          | Inr images \<Rightarrow>
              (case those images of
                 None \<Rightarrow>
                   (header @ [Error ''Error loading one or more images. Please check the files.''],
                    None)
               | Some [] \<Rightarrow> (header, Some IndexError)
               | Some (first # rest) \<Rightarrow>
                   (let shown = header @ [Subheader ''Uploaded Images''] @
                                map ColImage (first # rest) @
                                [Subheader ''Stitched Image'', Spinner ''Stitching images...'']
                    in case stitch_loop cv first rest of
                         (events, Inl e) \<Rightarrow> (shown @ events, Some e)
                       | (events, Inr None) \<Rightarrow> (shown @ events, None)
                       | (events, Inr (Some stitched_image)) \<Rightarrow>
                           (case show_result stitched_image of
                              (events', r) \<Rightarrow> (shown @ events @ events', r))))))"

text \<open>The effects that show or offer a panorama.\<close>

fun shows_panorama :: "event \<Rightarrow> bool" where
  "shows_panorama (ShowImage img caption) = True"
| "shows_panorama (ImWrite path img) = True"
| "shows_panorama (DownloadButton label path mime) = True"
| "shows_panorama e = False"

fun is_stitch_call :: "event \<Rightarrow> bool" where
  "is_stitch_call (CallStitch a b) = True"
| "is_stitch_call e = False"

text \<open>
  The stitches of a run of images that all succeed: the calls made and the panorama
  reached, or \<open>None\<close> when one of them does not return a panorama.
\<close>

fun stitched_prefix :: "cv2 \<Rightarrow> image \<Rightarrow> image list \<Rightarrow> (event list \<times> image) option" where
  "stitched_prefix cv stitched_image [] = Some ([], stitched_image)"
| "stitched_prefix cv stitched_image (img # images) =
     (case stitch_images cv stitched_image img of
        Inr (Some stitched_image') \<Rightarrow>
          (case stitched_prefix cv stitched_image' images of
             None \<Rightarrow> None
           | Some (events, result) \<Rightarrow> Some (CallStitch stitched_image img # events, result))
      | _ \<Rightarrow> None)"

section \<open>The standardizer\<close>

subsection \<open>Python floats\<close>

text \<open>
  A finite Python float is a rational number of the IEEE binary64 format. \<open>fl x\<close> is the
  number that a correctly rounded operation returns for the exact result \<open>x\<close>: the nearest
  multiple of the spacing at \<open>x\<close>, ties to the even multiple. The spacing is
  \<open>2\<^sup>e\<^sup>-\<^sup>5\<^sup>2\<close> for \<open>2\<^sup>e \<le> |x| < 2\<^sup>e\<^sup>+\<^sup>1\<close> and is
  \<open>2\<^sup>-\<^sup>1\<^sup>0\<^sup>7\<^sup>4\<close> in the subnormal range. \<open>ilog2 x\<close> is that exponent \<open>e\<close> of a positive \<open>x\<close>.
\<close>

definition ilog2 :: "rat \<Rightarrow> int" where
  "ilog2 x = (case quotient_of x of (p, q) \<Rightarrow>
     let d = bitlen p - bitlen q in if 2 powi d \<le> x then d else d - 1)"

definition round_half_even :: "rat \<Rightarrow> int" where
  "round_half_even x =
     (let f = \<lfloor>x\<rfloor>; d = x - of_int f
      in if d < 1 / 2 then f else if 1 / 2 < d then f + 1 else if even f then f else f + 1)"

definition quantum :: "rat \<Rightarrow> rat" where
  "quantum x = 2 powi (max (ilog2 x) (- 1022) - 52)"

definition fl :: "rat \<Rightarrow> rat" where
  "fl x = (if x = 0 then 0
           else if 0 < x then of_int (round_half_even (x / quantum x)) * quantum x
           else - (of_int (round_half_even (- x / quantum (- x))) * quantum (- x)))"

text \<open>The rounded result is beyond the largest float.\<close>

definition overflows :: "rat \<Rightarrow> bool" where
  "overflows x = (2 ^ 1024 \<le> \<bar>fl x\<bar>)"

text \<open>
  \<^verbatim>\<open>a / b\<close> on two \<^verbatim>\<open>int\<close>s: the correctly rounded quotient; ZeroDivisionError for \<open>b = 0\<close>,
  OverflowError when the quotient is too large for a float.
\<close>

definition truediv :: "int \<Rightarrow> int \<Rightarrow> error + rat" where
  "truediv a b =
     (if b = 0 then Inl ZeroDivisionError
      else if overflows (of_int a / of_int b) then Inl OverflowError
      else Inr (fl (of_int a / of_int b)))"

text \<open>\<^verbatim>\<open>min(a, b)\<close> returns its first argument unless the second is smaller.\<close>

definition py_min :: "rat \<Rightarrow> rat \<Rightarrow> rat" where
  "py_min a b = (if b < a then b else a)"

text \<open>\<^verbatim>\<open>int(x)\<close> on a finite float truncates toward zero.\<close>

definition trunc :: "rat \<Rightarrow> int" where
  "trunc x = (if 0 \<le> x then \<lfloor>x\<rfloor> else \<lceil>x\<rceil>)"

text \<open>
  \<^verbatim>\<open>int(n * x)\<close> for an \<^verbatim>\<open>int\<close> \<open>n\<close> and a finite float \<open>x\<close>: \<open>n\<close> is converted to a float
  (OverflowError when it is too large), the product is rounded, and \<^verbatim>\<open>int\<close> truncates it. A
  product beyond the largest float is \<^verbatim>\<open>inf\<close>, on which \<^verbatim>\<open>int\<close> raises OverflowError.
\<close>

definition int_of_product :: "int \<Rightarrow> rat \<Rightarrow> error + int" where
  "int_of_product n x =
     (if overflows (of_int n) then Inl OverflowError
      else if overflows (fl (of_int n) * x) then Inl OverflowError
      else Inr (trunc (fl (fl (of_int n) * x))))"

subsection \<open>Library calls of the standardizer\<close>



subsection \<open>\<^verbatim>\<open>standardize_image\<close>\<close>



text \<open>
  Lines 33 to 35: the scale factor and the pair \<open>(new_width, new_height)\<close>, from the width
  \<open>w\<close> and the height \<open>h\<close> of the image.
\<close>

definition scaled_size :: "int \<Rightarrow> int \<Rightarrow> int \<Rightarrow> int \<Rightarrow> error + (int \<times> int)" where
  "scaled_size w h target_width target_height =
     (case truediv target_width w of Inl e \<Rightarrow> Inl e | Inr a \<Rightarrow>
      case truediv target_height h of Inl e \<Rightarrow> Inl e | Inr b \<Rightarrow>
        let scale_factor = py_min a b in
        case int_of_product w scale_factor of Inl e \<Rightarrow> Inl e | Inr new_width \<Rightarrow>
        case int_of_product h scale_factor of Inl e \<Rightarrow> Inl e | Inr new_height \<Rightarrow>
          Inr (new_width, new_height))"

section \<open>A small concrete instance\<close>

text \<open>
  A stand-in for the library, used to run the model on concrete inputs: five fixed
  keypoints per image, a matcher that returns a given list, a solver that returns a given
  transform (or none), a warp that copies the source and fills with black, a resize that
  takes the nearest sample, and a
  decoder that takes a first byte 0 as an undecodable file and any other first byte \<open>b\<close> as a
  one-row image of constant first channel \<open>b\<close>.
\<close>

definition demo_image :: "nat \<Rightarrow> nat \<Rightarrow> 8 word \<Rightarrow> image" where
  "demo_image h w b = \<lparr>shape0 = h, shape1 = w, px = (\<lambda>r c. (b, of_nat r, of_nat c))\<rparr>"

definition demo_keypoints :: "keypoint list" where
  "demo_keypoints = [\<lparr>pt = (0, 0)\<rparr>, \<lparr>pt = (1, 0)\<rparr>, \<lparr>pt = (0, 1)\<rparr>, \<lparr>pt = (1, 1)\<rparr>, \<lparr>pt = (2, 1)\<rparr>]"

definition demo_matches :: "dmatch list" where
  "demo_matches =
     [\<lparr>queryIdx = 0, trainIdx = 1, distance = 3\<rparr>,
      \<lparr>queryIdx = 1, trainIdx = 0, distance = 1\<rparr>,
      \<lparr>queryIdx = 2, trainIdx = 2, distance = 2\<rparr>,
      \<lparr>queryIdx = 3, trainIdx = 4, distance = 1\<rparr>,
      \<lparr>queryIdx = 4, trainIdx = 3, distance = 5\<rparr>]"

definition demo_cv :: "dmatch list \<Rightarrow> homography option \<Rightarrow> cv2" where
  "demo_cv ms H =
     \<lparr>RGB2GRAY = (\<lambda>img r c. fst (snd (px img r c))),
      detectAndCompute = (\<lambda>h w g. (demo_keypoints, Some [])),
      bf_match = (\<lambda>a b. Inr ms),
      findHomography = (\<lambda>ps qs r. (H, map_option (\<lambda>_. replicate (length ps) 1) H)),
      warp_px = (\<lambda>src M dsize r c. if r < shape0 src \<and> c < shape1 src then px src r c else (0, 0, 0)),
      area_px = (\<lambda>src dsize r c. px src (r * shape0 src div snd dsize) (c * shape1 src div fst dsize)),
      imdecode = (\<lambda>bytes. case bytes of [] \<Rightarrow> Inl CvError
                    | b # bs \<Rightarrow> if b = 0 then Inr None else Inr (Some (demo_image 1 (Suc (length bs)) b)))\<rparr>"

definition identity3 :: homography where
  "identity3 = [[1, 0, 0], [0, 1, 0], [0, 0, 1]]"


text \<open>
  A variant whose matcher depends on the train image: it finds all five matches while the
  train image is one column wide, and only four of them once it is wider.
\<close>

definition demo_cv_narrow :: cv2 where
  "demo_cv_narrow =
     (demo_cv demo_matches (Some identity3))
       \<lparr>detectAndCompute := (\<lambda>h w g. (demo_keypoints, Some (replicate w []))),
        bf_match := (\<lambda>a b. case a of
                       None \<Rightarrow> Inl CvError
                     | Some d \<Rightarrow> Inr (if length d < 2 then demo_matches else take 4 demo_matches))\<rparr>"

section \<open>Properties of the pairwise stitch\<close>

lemmas demo_defs = demo_cv_def demo_image_def demo_matches_def demo_keypoints_def identity3_def
lemmas stitch_defs = stitch_images_def stitch_matches_def detect_def cvtColor_BGR2RGB_def
  cvtColor_RGB2GRAY_def key_points_matching_def homography_stitching_def warpPerspective_def
  setitem_def slice_indices_def swap_channels_def

lemma detect_findHomography [simp]: "detect (cv\<lparr>findHomography := f\<rparr>) img = detect cv img"
  by (simp add: detect_def cvtColor_RGB2GRAY_def split: sum.splits prod.splits)

lemma key_points_matching_findHomography [simp]:
  "key_points_matching (cv\<lparr>findHomography := f\<rparr>) a b = key_points_matching cv a b"
  by (simp add: key_points_matching_def)

lemma stitch_matches_findHomography [simp]:
  "stitch_matches (cv\<lparr>findHomography := f\<rparr>) a b = stitch_matches cv a b"
  by (simp add: stitch_matches_def split: sum.splits prod.splits)

lemma homography_stitching_None_iff:
  "(homography_stitching cv kt kq matches r = Inr None) = (length matches \<le> 4)"
  by (auto simp: homography_stitching_def Let_def split: sum.splits prod.splits)

lemma stitch_matches_stages:
  assumes "stitch_matches cv train_image query_image = Inr matches"
  obtains train_photo kt ft query_photo kq fq where
    "detect cv train_image = Inr (train_photo, kt, ft)"
    "detect cv query_image = Inr (query_photo, kq, fq)"
    "key_points_matching cv ft fq = Inr matches"
  using assms unfolding stitch_matches_def
  by (auto split: sum.splits prod.splits)

lemma stitch_images_few:
  assumes "detect cv train_image = Inr (train_photo, kt, ft)"
    and "detect cv query_image = Inr (query_photo, kq, fq)"
    and "key_points_matching cv ft fq = Inr matches"
  shows "(stitch_images cv train_image query_image = Inr None) = (length matches \<le> 4)"
proof (cases "homography_stitching cv kt kq matches 4")
  case (Inl e)
  with homography_stitching_None_iff [of cv kt kq matches 4] assms show ?thesis
    by (simp add: stitch_images_def)
next
  case (Inr M)
  with homography_stitching_None_iff [of cv kt kq matches 4] assms show ?thesis
    by (cases M) (auto simp: stitch_images_def Let_def split: sum.splits)
qed

lemma stitch_images_None_iff:
  assumes "stitch_matches cv train_image query_image = Inr matches"
  shows "(stitch_images cv train_image query_image = Inr None) = (length matches \<le> 4)"
  using assms by (elim stitch_matches_stages) (rule stitch_images_few)

text \<open>
  Claim C1. Whenever the matching stage of a pairwise stitch delivers its sorted match
  list, \<^verbatim>\<open>stitch_images\<close> returns \<^verbatim>\<open>None\<close> exactly when that list has fewer than 5 entries
  (\<^verbatim>\<open>len(matches) > 4\<close> is false). With fewer than 5 entries the solver is not consulted:
  the result is \<^verbatim>\<open>None\<close> whatever \<^verbatim>\<open>cv2.findHomography\<close> would compute.
\<close>

theorem stitch_fails_iff_fewer_than_5_matches:
  assumes "stitch_matches cv train_image query_image = Inr matches"
  shows "(stitch_images cv train_image query_image = Inr None) = (length matches < 5) \<and>
         (length matches < 5 \<longrightarrow>
            (\<forall>solver. stitch_images (cv\<lparr>findHomography := solver\<rparr>) train_image query_image = Inr None))"
proof -
  have "stitch_matches (cv\<lparr>findHomography := solver\<rparr>) train_image query_image = Inr matches"
    for solver using assms by simp
  from stitch_images_None_iff [OF this] stitch_images_None_iff [OF assms]
  show ?thesis by auto
qed

theorem stitch_fails_iff_fewer_than_5_matches_witness:
  "stitch_matches (demo_cv (take 4 demo_matches) (Some identity3)) (demo_image 2 3 9) (demo_image 2 2 7)
     = Inr [\<lparr>queryIdx = 1, trainIdx = 0, distance = 1\<rparr>, \<lparr>queryIdx = 3, trainIdx = 4, distance = 1\<rparr>,
            \<lparr>queryIdx = 2, trainIdx = 2, distance = 2\<rparr>, \<lparr>queryIdx = 0, trainIdx = 1, distance = 3\<rparr>] \<and>
   stitch_images (demo_cv (take 4 demo_matches) (Some identity3)) (demo_image 2 3 9) (demo_image 2 2 7) = Inr None \<and>
   stitch_images ((demo_cv (take 4 demo_matches) (Some identity3))\<lparr>findHomography := (\<lambda>ps qs r. (None, None))\<rparr>)
     (demo_image 2 3 9) (demo_image 2 2 7) = Inr None"
proof -
  have m: "stitch_matches (demo_cv (take 4 demo_matches) (Some identity3)) (demo_image 2 3 9) (demo_image 2 2 7)
     = Inr [\<lparr>queryIdx = 1, trainIdx = 0, distance = 1\<rparr>, \<lparr>queryIdx = 3, trainIdx = 4, distance = 1\<rparr>,
            \<lparr>queryIdx = 2, trainIdx = 2, distance = 2\<rparr>, \<lparr>queryIdx = 0, trainIdx = 1, distance = 3\<rparr>]"
    by (simp add: stitch_defs demo_defs)
  from stitch_fails_iff_fewer_than_5_matches [OF m] m show ?thesis by simp
qed

lemma gather_Inl: "gather kps idx = Inl e \<Longrightarrow> e = IndexError"
  by (induction idx) (auto split: if_splits sum.splits)

lemma homography_stitching_Inr:
  assumes "homography_stitching cv kt kq matches r = Inr M" and "4 < length matches"
  shows "\<exists>ps qs. M = Some (matches, findHomography cv ps qs r)"
  using assms
  by (auto simp: homography_stitching_def Let_def split: sum.splits prod.splits)

lemma stitch_images_no_transform:
  assumes "detect cv train_image = Inr (train_photo, kt, ft)"
    and "detect cv query_image = Inr (query_photo, kq, fq)"
    and "key_points_matching cv ft fq = Inr matches"
    and "4 < length matches"
    and "\<forall>ps qs r. fst (findHomography cv ps qs r) = None"
  shows "stitch_images cv train_image query_image = Inl CvError \<or>
         stitch_images cv train_image query_image = Inl IndexError"
proof (cases "homography_stitching cv kt kq matches 4")
  case (Inl e)
  then have "e = IndexError"
    using assms(4) by (auto simp: homography_stitching_def Let_def dest: gather_Inl split: sum.splits prod.splits)
  with Inl assms show ?thesis by (simp add: stitch_images_def)
next
  case (Inr M)
  with assms(4) obtain ps qs where "M = Some (matches, findHomography cv ps qs 4)"
    by (auto dest: homography_stitching_Inr)
  moreover obtain H st where "findHomography cv ps qs 4 = (H, st)"
    by (cases "findHomography cv ps qs 4")
  moreover from this assms(5) have "H = None"
    by (metis fst_conv)
  ultimately show ?thesis using Inr assms(1-3)
    by (simp add: stitch_images_def warpPerspective_def Let_def)
qed

text \<open>
  Claim C2. The claim says that a failed homography estimation on at least 5 matches is
  reported as a stitch failure. The code has no such branch: \<^verbatim>\<open>homography_stitching\<close> returns
  the tuple with \<^verbatim>\<open>H = None\<close>, the test \<^verbatim>\<open>M is None\<close> does not fire, and the function goes on
  to \<^verbatim>\<open>cv2.warpPerspective\<close> with no matrix. So with at least 5 matches and a solver that
  finds no transform, \<^verbatim>\<open>stitch_images\<close> never returns the failure signal \<^verbatim>\<open>None\<close>; it leaves
  with an exception.
\<close>

theorem homography_failure_raises:
  assumes "stitch_matches cv train_image query_image = Inr matches"
    and "4 < length matches"
    and "\<forall>ps qs r. fst (findHomography cv ps qs r) = None"
  shows "stitch_images cv train_image query_image \<noteq> Inr None \<and>
         (stitch_images cv train_image query_image = Inl CvError \<or>
          stitch_images cv train_image query_image = Inl IndexError)"
proof -
  from assms(1) obtain train_photo kt ft query_photo kq fq where
    "detect cv train_image = Inr (train_photo, kt, ft)"
    "detect cv query_image = Inr (query_photo, kq, fq)"
    "key_points_matching cv ft fq = Inr matches"
    by (rule stitch_matches_stages)
  from stitch_images_no_transform [OF this assms(2,3)] show ?thesis by auto
qed

theorem homography_failure_raises_witness:
  "stitch_matches (demo_cv demo_matches None) (demo_image 2 3 9) (demo_image 2 2 7)
     = Inr [\<lparr>queryIdx = 1, trainIdx = 0, distance = 1\<rparr>, \<lparr>queryIdx = 3, trainIdx = 4, distance = 1\<rparr>,
            \<lparr>queryIdx = 2, trainIdx = 2, distance = 2\<rparr>, \<lparr>queryIdx = 0, trainIdx = 1, distance = 3\<rparr>,
            \<lparr>queryIdx = 4, trainIdx = 3, distance = 5\<rparr>] \<and>
   (\<forall>ps qs r. fst (findHomography (demo_cv demo_matches None) ps qs r) = None) \<and>
   stitch_images (demo_cv demo_matches None) (demo_image 2 3 9) (demo_image 2 2 7) = Inl CvError"
proof -
  have m: "stitch_matches (demo_cv demo_matches None) (demo_image 2 3 9) (demo_image 2 2 7)
     = Inr [\<lparr>queryIdx = 1, trainIdx = 0, distance = 1\<rparr>, \<lparr>queryIdx = 3, trainIdx = 4, distance = 1\<rparr>,
            \<lparr>queryIdx = 2, trainIdx = 2, distance = 2\<rparr>, \<lparr>queryIdx = 0, trainIdx = 1, distance = 3\<rparr>,
            \<lparr>queryIdx = 4, trainIdx = 3, distance = 5\<rparr>]"
    by (simp add: stitch_defs demo_defs)
  have f: "\<forall>ps qs r. fst (findHomography (demo_cv demo_matches None) ps qs r) = None"
    by (simp add: demo_cv_def)
  have "stitch_images (demo_cv demo_matches None) (demo_image 2 3 9) (demo_image 2 2 7) \<noteq> Inl IndexError"
    by (simp add: stitch_defs demo_defs)
  with homography_failure_raises [OF m _ f] m f show ?thesis by simp
qed

lemma detect_photo:
  assumes "detect cv img = Inr (photo, kps, feats)"
  shows "cvtColor_BGR2RGB img = Inr photo" and "shape0 photo = shape0 img"
    and "shape1 photo = shape1 img" and "0 < shape0 img" and "0 < shape1 img"
    and "px photo r c = swap_channels (px img r c)"
  using assms
  by (auto simp: detect_def cvtColor_BGR2RGB_def split: sum.splits prod.splits if_splits)

lemma stitch_images_Some_stages:
  assumes "stitch_images cv train_image query_image = Inr (Some result)"
  obtains train_photo kt ft query_photo kq fq H canvas where
    "detect cv train_image = Inr (train_photo, kt, ft)"
    "detect cv query_image = Inr (query_photo, kq, fq)"
    "warpPerspective cv train_photo H
       (shape1 query_photo + shape1 train_photo, max (shape0 query_photo) (shape0 train_photo)) = Inr canvas"
    "setitem canvas (0, int (shape0 query_photo)) (0, int (shape1 query_photo)) query_photo = Inr result"
  using assms unfolding stitch_images_def
  by (auto simp: Let_def split: sum.splits prod.splits option.splits)

lemma warpPerspective_shape:
  assumes "warpPerspective cv src H (w, h) = Inr canvas" and "0 < w" and "0 < h"
  shows "shape0 canvas = h" and "shape1 canvas = w"
  using assms
  by (auto simp: warpPerspective_def Let_def split: option.splits if_splits)

lemma slice_indices_prefix: "n \<le> m \<Longrightarrow> slice_indices 0 (int n) m = (0, n)"
  by (simp add: slice_indices_def Let_def)

lemma setitem_prefix:
  assumes "setitem dst (0, int (shape0 src)) (0, int (shape1 src)) src = Inr res"
    and "shape0 src \<le> shape0 dst" and "shape1 src \<le> shape1 dst"
  shows "shape0 res = shape0 dst" and "shape1 res = shape1 dst"
    and "r < shape0 src \<Longrightarrow> c < shape1 src \<Longrightarrow> px res r c = px src r c"
    and "\<not> (r < shape0 src \<and> c < shape1 src) \<Longrightarrow> px res r c = px dst r c"
  using assms
  by (auto simp: setitem_def slice_indices_prefix split: if_splits)


text \<open>
  Claim C3. When \<^verbatim>\<open>stitch_images\<close> returns a panorama, its width is the width of the query
  image plus the width of the train image, and its height is the larger of the two heights.
  Stitching an image with itself therefore gives a canvas that is at least as large as the
  input in each direction, and whose larger side is at least the larger side of the input.
\<close>

theorem canvas_is_sum_of_widths_max_of_heights:
  assumes "stitch_images cv train_image query_image = Inr (Some result)"
  shows "shape1 result = shape1 query_image + shape1 train_image \<and>
         shape0 result = max (shape0 query_image) (shape0 train_image) \<and>
         (train_image = query_image \<longrightarrow>
            max (shape0 query_image) (shape1 query_image) \<le> max (shape0 result) (shape1 result) \<and>
            shape0 query_image \<le> shape0 result \<and> shape1 query_image \<le> shape1 result)"
proof -
  from assms obtain train_photo kt ft query_photo kq fq H canvas where
    t: "detect cv train_image = Inr (train_photo, kt, ft)" and
    q: "detect cv query_image = Inr (query_photo, kq, fq)" and
    w: "warpPerspective cv train_photo H
       (shape1 query_photo + shape1 train_photo, max (shape0 query_photo) (shape0 train_photo)) = Inr canvas" and
    s: "setitem canvas (0, int (shape0 query_photo)) (0, int (shape1 query_photo)) query_photo = Inr result"
    by (rule stitch_images_Some_stages)
  note ts = detect_photo(2-5) [OF t] and qs = detect_photo(2-5) [OF q]
  have c0: "shape0 canvas = max (shape0 query_photo) (shape0 train_photo)"
    and c1: "shape1 canvas = shape1 query_photo + shape1 train_photo"
    using warpPerspective_shape [OF w] ts qs by auto
  have "shape0 result = shape0 canvas" and "shape1 result = shape1 canvas"
    using setitem_prefix(1,2) [OF s] c0 c1 by auto
  with c0 c1 ts qs show ?thesis by auto
qed
theorem canvas_is_sum_of_widths_max_of_heights_witness:
  "\<exists>result. stitch_images (demo_cv demo_matches (Some identity3)) (demo_image 2 3 9) (demo_image 2 3 9)
       = Inr (Some result) \<and>
     shape1 result = 6 \<and> shape0 result = 2 \<and> (3::nat) \<le> max (shape0 result) (shape1 result)"
proof -
  have "\<exists>result. stitch_images (demo_cv demo_matches (Some identity3)) (demo_image 2 3 9) (demo_image 2 3 9)
          = Inr (Some result)"
    by (simp add: stitch_defs demo_defs Let_def)
  then obtain result where
    r: "stitch_images (demo_cv demo_matches (Some identity3)) (demo_image 2 3 9) (demo_image 2 3 9)
          = Inr (Some result)" ..
  from canvas_is_sum_of_widths_max_of_heights [OF r] r show ?thesis
    by (auto simp: demo_image_def)
qed


text \<open>
  Claim C4. When \<^verbatim>\<open>stitch_images\<close> returns a panorama, every sample of the result inside
  the query's rectangle (row below the query height, column below the query width) comes
  from the query image alone, whatever the warp of the train image put there: the paste
  takes precedence. But the sample is not the one of the query image passed in: it is that
  sample with channel 0 and channel 2 exchanged, because the function pastes the array made
  by \<^verbatim>\<open>cv2.cvtColor(query_image, cv2.COLOR_BGR2RGB)\<close> and never converts back, while its caller
  passes the result on as a BGR array like the decoded images. The two samples agree exactly
  where channel 0 and channel 2 of the query sample are equal.
\<close>

theorem query_pixels_are_pasted_with_channels_exchanged:
  assumes "stitch_images cv train_image query_image = Inr (Some result)"
    and "r < shape0 query_image" and "c < shape1 query_image"
  shows "px result r c = swap_channels (px query_image r c) \<and>
         (px result r c = px query_image r c) =
           (fst (px query_image r c) = snd (snd (px query_image r c)))"
proof -
  from assms(1) obtain train_photo kt ft query_photo kq fq H canvas where
    t: "detect cv train_image = Inr (train_photo, kt, ft)" and
    q: "detect cv query_image = Inr (query_photo, kq, fq)" and
    w: "warpPerspective cv train_photo H
       (shape1 query_photo + shape1 train_photo, max (shape0 query_photo) (shape0 train_photo)) = Inr canvas" and
    s: "setitem canvas (0, int (shape0 query_photo)) (0, int (shape1 query_photo)) query_photo = Inr result"
    by (rule stitch_images_Some_stages)
  note ts = detect_photo(2-5) [OF t] and qs = detect_photo(2-5) [OF q]
  have c0: "shape0 canvas = max (shape0 query_photo) (shape0 train_photo)"
    and c1: "shape1 canvas = shape1 query_photo + shape1 train_photo"
    using warpPerspective_shape [OF w] ts qs by auto
  have "px result r c = px query_photo r c"
    using setitem_prefix(3) [OF s, of r c] c0 c1 qs assms(2,3) by simp
  with detect_photo(6) [OF q] have "px result r c = swap_channels (px query_image r c)" by simp
  then show ?thesis
    by (cases "px query_image r c") (auto simp: swap_channels_def)
qed

theorem query_pixels_are_pasted_with_channels_exchanged_witness:
  "\<exists>result. stitch_images (demo_cv demo_matches (Some identity3)) (demo_image 2 3 9) (demo_image 2 2 7)
       = Inr (Some result) \<and> px result 1 1 = (1, 1, 7) \<and> px (demo_image 2 2 7) 1 1 = (7, 1, 1) \<and>
       px result 1 1 \<noteq> px (demo_image 2 2 7) 1 1"
proof -
  have "\<exists>result. stitch_images (demo_cv demo_matches (Some identity3)) (demo_image 2 3 9) (demo_image 2 2 7)
          = Inr (Some result)"
    by (simp add: stitch_defs demo_defs Let_def)
  then obtain result where
    r: "stitch_images (demo_cv demo_matches (Some identity3)) (demo_image 2 3 9) (demo_image 2 2 7)
          = Inr (Some result)" ..
  have "(1::nat) < shape0 (demo_image 2 2 7)" and "(1::nat) < shape1 (demo_image 2 2 7)"
    by (simp_all add: demo_image_def)
  from query_pixels_are_pasted_with_channels_exchanged [OF r this]
  have a: "px result 1 1 = (1, 1, 7)" and b: "px (demo_image 2 2 7) 1 1 = (7, 1, 1)"
    and c: "px result 1 1 \<noteq> px (demo_image 2 2 7) 1 1"
    by (simp_all add: demo_image_def swap_channels_def)
  from r a b c show ?thesis by (intro exI [of _ result] conjI)
qed


lemma gather_all:
  "gather (map pt kps) (map f ms) =
     (if \<forall>m \<in> set ms. f m < length kps then Inr (map (\<lambda>m. pt (kps ! f m)) ms) else Inl IndexError)"
  by (induction ms) auto

lemma homography_stitching_eq:
  "homography_stitching cv kt kq matches r =
     (if length matches \<le> 4 then Inr None
      else if \<exists>m \<in> set matches. \<not> (queryIdx m < length kt \<and> trainIdx m < length kq) then Inl IndexError
      else Inr (Some (matches, findHomography cv (map (\<lambda>m. pt (kt ! queryIdx m)) matches)
                                                 (map (\<lambda>m. pt (kq ! trainIdx m)) matches) r)))"
  by (auto simp: homography_stitching_def gather_all Let_def comp_def split: prod.splits)

text \<open>
  Claim C8. Let the feature detection of \<^verbatim>\<open>stitch_images\<close> give the keypoints \<open>kt\<close> and \<open>kq\<close>,
  and let the matcher return the list \<open>best_matches\<close>. The list \<open>matches\<close> that
  \<^verbatim>\<open>key_points_matching\<close> hands on is \<open>best_matches\<close> sorted by ascending distance: it is
  sorted, and it has the same entries with the same multiplicities. \<^verbatim>\<open>stitch_images\<close> then
  returns \<^verbatim>\<open>None\<close> for at most 4 matches, raises IndexError for an index outside the keypoint
  lists, and in every other case calls the solver exactly once, on one pair of points for
  every entry of \<open>matches\<close>, in the order of \<open>matches\<close>, and goes on with the transform that
  this call returns. No entry is dropped between the matcher and the solver.
\<close>

theorem sorted_matches_all_reach_the_solver:
  assumes "detect cv train_image = Inr (train_photo, kt, ft)"
    and "detect cv query_image = Inr (query_photo, kq, fq)"
    and "bf_match cv ft fq = Inr best_matches"
    and "matches = sort_key distance best_matches"
  shows "sorted (map distance matches) \<and>
         mset matches = mset best_matches \<and>
         key_points_matching cv ft fq = Inr matches \<and>
         stitch_images cv train_image query_image =
           (if length matches \<le> 4 then Inr None
            else if \<exists>m \<in> set matches. \<not> (queryIdx m < length kt \<and> trainIdx m < length kq)
            then Inl IndexError
            else
              case warpPerspective cv train_photo
                     (fst (findHomography cv (map (\<lambda>m. pt (kt ! queryIdx m)) matches)
                                             (map (\<lambda>m. pt (kq ! trainIdx m)) matches) 4))
                     (shape1 query_photo + shape1 train_photo,
                      max (shape0 query_photo) (shape0 train_photo)) of
                Inl e \<Rightarrow> Inl e
              | Inr result \<Rightarrow>
                  (case setitem result (0, int (shape0 query_photo))
                                       (0, int (shape1 query_photo)) query_photo of
                     Inl e \<Rightarrow> Inl e
                   | Inr result' \<Rightarrow> Inr (Some result')))"
proof -
  have k: "key_points_matching cv ft fq = Inr matches"
    using assms(3,4) by (simp add: key_points_matching_def)
  have "stitch_images cv train_image query_image =
           (if length matches \<le> 4 then Inr None
            else if \<exists>m \<in> set matches. \<not> (queryIdx m < length kt \<and> trainIdx m < length kq)
            then Inl IndexError
            else
              case warpPerspective cv train_photo
                     (fst (findHomography cv (map (\<lambda>m. pt (kt ! queryIdx m)) matches)
                                             (map (\<lambda>m. pt (kq ! trainIdx m)) matches) 4))
                     (shape1 query_photo + shape1 train_photo,
                      max (shape0 query_photo) (shape0 train_photo)) of
                Inl e \<Rightarrow> Inl e
              | Inr result \<Rightarrow>
                  (case setitem result (0, int (shape0 query_photo))
                                       (0, int (shape1 query_photo)) query_photo of
                     Inl e \<Rightarrow> Inl e
                   | Inr result' \<Rightarrow> Inr (Some result')))"
    by (simp add: stitch_images_def assms(1,2) k homography_stitching_eq Let_def
          split: prod.splits)
  with k assms(4) show ?thesis by simp
qed

theorem sorted_matches_all_reach_the_solver_witness:
  "stitch_images (demo_cv demo_matches (Some identity3)) (demo_image 2 3 9) (demo_image 2 2 7) =
     (case warpPerspective (demo_cv demo_matches (Some identity3))
             ((demo_image 2 3 9)\<lparr>px := (\<lambda>r c. swap_channels (px (demo_image 2 3 9) r c))\<rparr>)
             (fst (findHomography (demo_cv demo_matches (Some identity3))
                     [(1, 0), (1, 1), (0, 1), (0, 0), (2, 1)]
                     [(0, 0), (2, 1), (0, 1), (1, 0), (1, 1)] 4))
             (5, 2) of
        Inl e \<Rightarrow> Inl e
      | Inr result \<Rightarrow>
          (case setitem result (0, 2) (0, 2)
                  ((demo_image 2 2 7)\<lparr>px := (\<lambda>r c. swap_channels (px (demo_image 2 2 7) r c))\<rparr>) of
             Inl e \<Rightarrow> Inl e
           | Inr result' \<Rightarrow> Inr (Some result')))"
proof -
  let ?cv = "demo_cv demo_matches (Some identity3)"
  let ?ms = "[\<lparr>queryIdx = 1, trainIdx = 0, distance = 1\<rparr>, \<lparr>queryIdx = 3, trainIdx = 4, distance = 1\<rparr>,
            \<lparr>queryIdx = 2, trainIdx = 2, distance = 2\<rparr>, \<lparr>queryIdx = 0, trainIdx = 1, distance = 3\<rparr>,
            \<lparr>queryIdx = 4, trainIdx = 3, distance = 5\<rparr>]"
  have t: "detect ?cv (demo_image 2 3 9) =
             Inr ((demo_image 2 3 9)\<lparr>px := (\<lambda>r c. swap_channels (px (demo_image 2 3 9) r c))\<rparr>,
                  demo_keypoints, Some [])"
    by (simp add: detect_def cvtColor_BGR2RGB_def cvtColor_RGB2GRAY_def demo_cv_def demo_image_def)
  have q: "detect ?cv (demo_image 2 2 7) =
             Inr ((demo_image 2 2 7)\<lparr>px := (\<lambda>r c. swap_channels (px (demo_image 2 2 7) r c))\<rparr>,
                  demo_keypoints, Some [])"
    by (simp add: detect_def cvtColor_BGR2RGB_def cvtColor_RGB2GRAY_def demo_cv_def demo_image_def)
  have b: "bf_match ?cv (Some []) (Some []) = Inr demo_matches"
    by (simp add: demo_cv_def)
  have m: "?ms = sort_key distance demo_matches"
    by (simp add: demo_matches_def)
  note sorted_matches_all_reach_the_solver [OF t q b m]
  then have "stitch_images ?cv (demo_image 2 3 9) (demo_image 2 2 7) =
     (case warpPerspective ?cv
             ((demo_image 2 3 9)\<lparr>px := (\<lambda>r c. swap_channels (px (demo_image 2 3 9) r c))\<rparr>)
             (fst (findHomography ?cv (map (\<lambda>m. pt (demo_keypoints ! queryIdx m)) ?ms)
                                      (map (\<lambda>m. pt (demo_keypoints ! trainIdx m)) ?ms) 4))
             (shape1 ((demo_image 2 2 7)\<lparr>px := (\<lambda>r c. swap_channels (px (demo_image 2 2 7) r c))\<rparr>) +
              shape1 ((demo_image 2 3 9)\<lparr>px := (\<lambda>r c. swap_channels (px (demo_image 2 3 9) r c))\<rparr>),
              max (shape0 ((demo_image 2 2 7)\<lparr>px := (\<lambda>r c. swap_channels (px (demo_image 2 2 7) r c))\<rparr>))
                  (shape0 ((demo_image 2 3 9)\<lparr>px := (\<lambda>r c. swap_channels (px (demo_image 2 3 9) r c))\<rparr>))) of
        Inl e \<Rightarrow> Inl e
      | Inr result \<Rightarrow>
          (case setitem result
                  (0, int (shape0 ((demo_image 2 2 7)\<lparr>px := (\<lambda>r c. swap_channels (px (demo_image 2 2 7) r c))\<rparr>)))
                  (0, int (shape1 ((demo_image 2 2 7)\<lparr>px := (\<lambda>r c. swap_channels (px (demo_image 2 2 7) r c))\<rparr>)))
                  ((demo_image 2 2 7)\<lparr>px := (\<lambda>r c. swap_channels (px (demo_image 2 2 7) r c))\<rparr>) of
             Inl e \<Rightarrow> Inl e
           | Inr result' \<Rightarrow> Inr (Some result')))"
    by (simp add: demo_keypoints_def)
  then show ?thesis
    by (simp add: demo_keypoints_def demo_image_def cong: sum.case_cong)
qed

section \<open>Properties of the script\<close>


lemma those_map_Some [simp]: "those (map Some xs) = Some xs"
  by (induction xs) auto

lemma read_images_Inr_iff:
  "(read_images cv files = Inr images) = (map (imdecode cv) files = map Inr images)"
proof (induction files arbitrary: images)
  case Nil
  then show ?case by auto
next
  case (Cons f files)
  show ?case
  proof (cases "imdecode cv f")
    case (Inl e)
    then show ?thesis by (cases images) auto
  next
    case r: (Inr img)
    show ?thesis
    proof (cases "read_images cv files")
      case (Inl e)
      with Cons [of "tl images"] r show ?thesis by (cases images) auto
    next
      case (Inr rest)
      with Cons [of rest] Cons [of "tl images"] r show ?thesis by (cases images) auto
    qed
  qed
qed

lemma read_images_length: "read_images cv files = Inr images \<Longrightarrow> length images = length files"
  by (auto simp: read_images_Inr_iff dest: map_eq_imp_length_eq)





text \<open>
  Claim C9. With exactly one uploaded file that decodes to an image, the loop body is not
  entered: \<^verbatim>\<open>stitch_images\<close> is not called, and \<^verbatim>\<open>stitched_image\<close> is the decoded image itself.
  The two results of the run are not the same array, however. \<^verbatim>\<open>imageio.imwrite\<close> writes the
  decoded array for the download, while \<^verbatim>\<open>st.image\<close> shows the array made by
  \<^verbatim>\<open>cv2.cvtColor(stitched_image, cv2.COLOR_BGR2RGB)\<close>, which has channel 0 and channel 2 of
  every sample exchanged. Both sinks read an array as RGB, so the shown image and the
  written image differ wherever channel 0 and channel 2 of the decoded sample differ.
\<close>

theorem single_image_is_shown_and_written_differently:
  assumes "imdecode cv uploaded_file = Inr (Some img)"
    and "cvtColor_BGR2RGB img = Inr result_image"
  shows "run_app cv [uploaded_file] =
           ([Title ''Image Stitching App'',
             WriteText ''Upload multiple images to stitch them together.'',
             Subheader ''Uploaded Images'', ColImage img,
             Subheader ''Stitched Image'', Spinner ''Stitching images...'',
             ShowImage result_image ''Stitched Image'',
             ImWrite ''stitched_image.jpg'' img,
             DownloadButton ''Download Stitched Image'' ''stitched_image.jpg'' ''image/jpeg''], None) \<and>
         (\<forall>e \<in> set (fst (run_app cv [uploaded_file])). \<not> is_stitch_call e) \<and>
         shape0 result_image = shape0 img \<and> shape1 result_image = shape1 img \<and>
         (\<forall>r c. px result_image r c = swap_channels (px img r c) \<and>
                (px result_image r c = px img r c) = (fst (px img r c) = snd (snd (px img r c))))"
proof -
  from assms(2) have res: "result_image = img\<lparr>px := (\<lambda>r c. swap_channels (px img r c))\<rparr>"
    by (auto simp: cvtColor_BGR2RGB_def split: if_splits)
  have "(swap_channels p = p) = (fst p = snd (snd p))" for p :: pixel
    by (cases p) (auto simp: swap_channels_def)
  with res have p: "\<forall>r c. px result_image r c = swap_channels (px img r c) \<and>
                (px result_image r c = px img r c) = (fst (px img r c) = snd (snd (px img r c)))"
    by simp
  from res have s0: "shape0 result_image = shape0 img" and s1: "shape1 result_image = shape1 img"
    by simp_all
  from assms have run: "run_app cv [uploaded_file] =
           ([Title ''Image Stitching App'',
             WriteText ''Upload multiple images to stitch them together.'',
             Subheader ''Uploaded Images'', ColImage img,
             Subheader ''Stitched Image'', Spinner ''Stitching images...'',
             ShowImage result_image ''Stitched Image'',
             ImWrite ''stitched_image.jpg'' img,
             DownloadButton ''Download Stitched Image'' ''stitched_image.jpg'' ''image/jpeg''], None)"
    by (simp add: run_app_def show_result_def)
  then have calls: "\<forall>e \<in> set (fst (run_app cv [uploaded_file])). \<not> is_stitch_call e"
    by simp
  from run calls s0 s1 p show ?thesis by (intro conjI)
qed

theorem single_image_is_shown_and_written_differently_witness:
  "\<exists>result_image.
     run_app (demo_cv demo_matches (Some identity3)) [[7, 7]] =
           ([Title ''Image Stitching App'',
             WriteText ''Upload multiple images to stitch them together.'',
             Subheader ''Uploaded Images'', ColImage (demo_image 1 2 7),
             Subheader ''Stitched Image'', Spinner ''Stitching images...'',
             ShowImage result_image ''Stitched Image'',
             ImWrite ''stitched_image.jpg'' (demo_image 1 2 7),
             DownloadButton ''Download Stitched Image'' ''stitched_image.jpg'' ''image/jpeg''], None) \<and>
     px result_image 0 1 = (1, 0, 7) \<and> px (demo_image 1 2 7) 0 1 = (7, 0, 1)"
proof -
  let ?shown = "(demo_image 1 2 7)\<lparr>px := (\<lambda>r c. swap_channels (px (demo_image 1 2 7) r c))\<rparr>"
  have a: "imdecode (demo_cv demo_matches (Some identity3)) [7, 7] = Inr (Some (demo_image 1 2 7))"
    by (simp add: demo_cv_def) (simp add: numeral_2_eq_2)
  have b: "cvtColor_BGR2RGB (demo_image 1 2 7) = Inr ?shown"
    by (simp add: cvtColor_BGR2RGB_def demo_image_def)
  note single_image_is_shown_and_written_differently [OF a b]
  then have run: "run_app (demo_cv demo_matches (Some identity3)) [[7, 7]] =
           ([Title ''Image Stitching App'',
             WriteText ''Upload multiple images to stitch them together.'',
             Subheader ''Uploaded Images'', ColImage (demo_image 1 2 7),
             Subheader ''Stitched Image'', Spinner ''Stitching images...'',
             ShowImage ?shown ''Stitched Image'',
             ImWrite ''stitched_image.jpg'' (demo_image 1 2 7),
             DownloadButton ''Download Stitched Image'' ''stitched_image.jpg'' ''image/jpeg''], None)"
    by (rule conjunct1)
  have p: "px ?shown 0 1 = (1, 0, 7)" and d: "px (demo_image 1 2 7) 0 1 = (7, 0, 1)"
    by (simp_all add: demo_image_def swap_channels_def)
  from run p d show ?thesis by (intro exI [of _ ?shown] conjI)
qed

lemma stitched_prefix_calls:
  "stitched_prefix cv acc0 pre = Some (calls, acc) \<Longrightarrow>
     length calls = length pre \<and> (\<forall>e \<in> set calls. is_stitch_call e \<and> \<not> shows_panorama e)"
  by (induction pre arbitrary: acc0 calls) (auto split: sum.splits option.splits)

lemma stitch_loop_fails:
  "stitched_prefix cv acc0 pre = Some (calls, acc) \<Longrightarrow> stitch_images cv acc img = Inr None \<Longrightarrow>
     stitch_loop cv acc0 (pre @ img # post) =
       (calls @ [CallStitch acc img,
                 Error ''Error stitching images. Please ensure the images overlap sufficiently.''],
        Inr None)"
  by (induction pre arbitrary: acc0 calls) (auto split: sum.splits option.splits)

text \<open>
  Claim C7. Let the uploaded files decode to \<open>first\<close>, then the images \<open>pre\<close>, then \<open>img\<close>,
  then the images \<open>post\<close>; let every stitch along \<open>pre\<close> succeed and reach the panorama
  \<open>acc\<close>, and let the stitch of \<open>acc\<close> with \<open>img\<close> return \<^verbatim>\<open>None\<close>. Then the run makes the
  calls for \<open>pre\<close>, the failing call, writes the message \<^verbatim>\<open>st.error("Error stitching
  images...")\<close> and ends: no call is made for \<open>post\<close>, and no panorama is shown, written or
  offered for download (the row of uploaded images was shown before the loop began).
\<close>

theorem failed_stitch_aborts_fold:
  assumes "read_images cv uploaded_files = Inr (map Some (first # pre @ img # post))"
    and "stitched_prefix cv first pre = Some (calls, acc)"
    and "stitch_images cv acc img = Inr None"
  shows "run_app cv uploaded_files =
           ([Title ''Image Stitching App'',
             WriteText ''Upload multiple images to stitch them together.'',
             Subheader ''Uploaded Images''] @
            map ColImage (first # pre @ img # post) @
            [Subheader ''Stitched Image'', Spinner ''Stitching images...''] @
            calls @
            [CallStitch acc img,
             Error ''Error stitching images. Please ensure the images overlap sufficiently.''],
            None) \<and>
         length calls = length pre \<and>
         (\<forall>e \<in> set (fst (run_app cv uploaded_files)). \<not> shows_panorama e)"
proof -
  from read_images_length [OF assms(1)] have ne: "uploaded_files \<noteq> []" by auto
  note loop = stitch_loop_fails [OF assms(2,3), of post]
  have run: "run_app cv uploaded_files =
           ([Title ''Image Stitching App'',
             WriteText ''Upload multiple images to stitch them together.'',
             Subheader ''Uploaded Images''] @
            map ColImage (first # pre @ img # post) @
            [Subheader ''Stitched Image'', Spinner ''Stitching images...''] @
            calls @
            [CallStitch acc img,
             Error ''Error stitching images. Please ensure the images overlap sufficiently.''],
            None)"
    by (simp only: run_app_def Let_def ne if_False assms(1) sum.case those_map_Some
          option.case list.case loop prod.case) simp
  moreover from stitched_prefix_calls [OF assms(2)]
  have "length calls = length pre" and "\<forall>e \<in> set calls. \<not> shows_panorama e" by auto
  ultimately show ?thesis by (auto simp del: map_append)
qed

theorem failed_stitch_aborts_fold_witness:
  "\<exists>calls acc.
     stitched_prefix demo_cv_narrow (demo_image 1 1 1) [demo_image 1 1 2] = Some (calls, acc) \<and>
     stitch_images demo_cv_narrow acc (demo_image 1 1 3) = Inr None \<and>
     run_app demo_cv_narrow [[1], [2], [3], [4]] =
       ([Title ''Image Stitching App'',
         WriteText ''Upload multiple images to stitch them together.'',
         Subheader ''Uploaded Images'',
         ColImage (demo_image 1 1 1), ColImage (demo_image 1 1 2),
         ColImage (demo_image 1 1 3), ColImage (demo_image 1 1 4),
         Subheader ''Stitched Image'', Spinner ''Stitching images...''] @
        calls @
        [CallStitch acc (demo_image 1 1 3),
         Error ''Error stitching images. Please ensure the images overlap sufficiently.''],
        None) \<and>
     length calls = 1"
proof -
  have r: "read_images demo_cv_narrow [[1], [2], [3], [4]] =
        Inr (map Some (demo_image 1 1 1 # [demo_image 1 1 2] @ demo_image 1 1 3 # [demo_image 1 1 4]))"
    by (simp add: demo_cv_narrow_def demo_cv_def)
  have "\<exists>calls acc.
          stitched_prefix demo_cv_narrow (demo_image 1 1 1) [demo_image 1 1 2] = Some (calls, acc) \<and>
          stitch_images demo_cv_narrow acc (demo_image 1 1 3) = Inr None"
    by (simp add: demo_cv_narrow_def stitch_defs demo_defs Let_def)
  then obtain calls acc where
    p: "stitched_prefix demo_cv_narrow (demo_image 1 1 1) [demo_image 1 1 2] = Some (calls, acc)" and
    f: "stitch_images demo_cv_narrow acc (demo_image 1 1 3) = Inr None"
    by (elim exE conjE)
  from failed_stitch_aborts_fold [OF r p f] p f show ?thesis
    by (intro exI [of _ calls] exI [of _ acc]) simp
qed


section \<open>Properties of the standardizer\<close>

subsection \<open>Rounding\<close>

lemma ilog2_le:
  assumes "0 < x"
  shows "2 powi (ilog2 x) \<le> x"
proof -
  obtain p q where pq: "quotient_of x = (p, q)" by (cases "quotient_of x")
  then have q: "0 < q" by (rule quotient_of_denom_pos)
  from pq have x: "x = of_int p / of_int q" by (rule quotient_of_div)
  with assms q have p: "0 < p" by (simp add: zero_less_divide_iff)
  define d where "d = bitlen p - bitlen q"
  show ?thesis
  proof (cases "2 powi d \<le> x")
    case True
    then show ?thesis by (simp add: ilog2_def pq d_def Let_def)
  next
    case False
    then have e: "ilog2 x = d - 1" by (simp add: ilog2_def pq d_def Let_def)
    have bp: "1 \<le> bitlen p" and bq: "1 \<le> bitlen q"
      using p q by (auto simp: bitlen_alt_def)
    from bitlen_bounds [OF p] have "(2::int) ^ nat (bitlen p - 1) \<le> p" by simp
    then have "(of_int ((2::int) ^ nat (bitlen p - 1)) :: rat) \<le> of_int p"
      by (simp only: of_int_le_iff)
    then have lp: "(2::rat) powi (bitlen p - 1) \<le> of_int p"
      using bp by (simp add: power_int_def)
    from bitlen_bounds [OF q] have "q < (2::int) ^ nat (bitlen q)" by simp
    then have "(of_int q :: rat) < of_int ((2::int) ^ nat (bitlen q))"
      by (simp only: of_int_less_iff)
    then have uq: "of_int q < (2::rat) powi (bitlen q)"
      using bq by (simp add: power_int_def)
    have "(2::rat) powi (d - 1) = 2 powi (bitlen p - 1) / 2 powi (bitlen q)"
      by (simp add: d_def power_int_diff)
    also have "\<dots> \<le> of_int p / 2 powi (bitlen q)"
      using lp by (simp add: divide_right_mono)
    also have "\<dots> \<le> of_int p / of_int q"
      using uq p q by (simp add: frac_le)
    finally have "(2::rat) powi (d - 1) \<le> x" by (simp add: x)
    then show ?thesis by (simp only: e)
  qed
qed

lemma round_half_even_le: "of_int (round_half_even y) \<le> y + 1 / 2"
proof -
  have "of_int \<lfloor>y\<rfloor> \<le> y" by simp
  then show ?thesis
    by (simp add: round_half_even_def Let_def) linarith
qed

lemma round_half_even_ge: "y - 1 / 2 \<le> of_int (round_half_even y)"
proof -
  have "y < of_int \<lfloor>y\<rfloor> + 1" by linarith
  then show ?thesis
    by (simp add: round_half_even_def Let_def)
qed

lemma quantum_pos: "0 < quantum x"
  by (simp add: quantum_def)

lemma quantum_le:
  assumes "0 < x"
  shows "quantum x \<le> x / 2 ^ 52 + 2 powi (- 1074)"
proof (cases "- 1022 \<le> ilog2 x")
  case True
  then have "quantum x = 2 powi (ilog2 x) / 2 ^ 52"
    by (simp add: quantum_def max_def power_int_diff)
  also have "\<dots> \<le> x / 2 ^ 52"
    using ilog2_le [OF assms] by (simp add: divide_right_mono)
  finally show ?thesis by (simp add: add_increasing2)
next
  case False
  then have "quantum x = 2 powi (- 1074)"
    by (simp add: quantum_def max_def)
  with assms show ?thesis by simp
qed

lemma fl_upper:
  assumes "0 \<le> x"
  shows "fl x \<le> x + x / 2 ^ 53 + 2 powi (- 1075)"
proof (cases "x = 0")
  case True
  then show ?thesis by (simp add: fl_def)
next
  case False
  with assms have x: "0 < x" by simp
  let ?q = "quantum x"
  have "fl x = of_int (round_half_even (x / ?q)) * ?q"
    using x by (simp add: fl_def)
  also have "\<dots> \<le> (x / ?q + 1 / 2) * ?q"
    using round_half_even_le [of "x / ?q"] quantum_pos [of x]
    by (simp only: mult_le_cancel_right) simp
  also have "\<dots> = x + ?q / 2"
    using quantum_pos [of x] by (simp add: field_simps)
  also have "\<dots> \<le> x + (x / 2 ^ 52 + 2 powi (- 1074)) / 2"
    using quantum_le [OF x] by simp
  also have "\<dots> = x + x / 2 ^ 53 + 2 powi (- 1075)"
    by (simp add: power_int_def field_simps)
  finally show ?thesis .
qed

lemma fl_nonneg:
  assumes "0 \<le> x"
  shows "0 \<le> fl x"
proof (cases "x = 0")
  case True
  then show ?thesis by (simp add: fl_def)
next
  case False
  with assms have x: "0 < x" by simp
  have "x / quantum x - 1 / 2 \<le> of_int (round_half_even (x / quantum x))"
    by (rule round_half_even_ge)
  moreover have "0 < x / quantum x" using x quantum_pos [of x] by simp
  ultimately have "- 1 < (of_int (round_half_even (x / quantum x)) :: rat)" by linarith
  then have "- 1 < round_half_even (x / quantum x)"
    by (metis of_int_less_iff of_int_minus of_int_1)
  then have "0 \<le> round_half_even (x / quantum x)" by simp
  then show ?thesis using x quantum_pos [of x] by (simp add: fl_def)
qed








lemma fl_product_bound:
  fixes W T s :: rat
  assumes W: "1 \<le> W" "W < 2 ^ 63"
    and T: "0 \<le> T" "T < 2 ^ 31"
    and s: "0 \<le> s" "s \<le> fl (T / W)"
  shows "fl (fl W * s) < T + 1"
proof -
  define u :: rat where "u = 1 / 2 ^ 53"
  define d :: rat where "d = 2 powi (- 1075)"
  define A where "A = W * (1 + u)"
  define C where "C = T / W * (1 + u)"
  have u: "0 < u" by (simp add: u_def)
  have d: "0 < d" by (simp add: d_def)
  have d_le: "d \<le> 1 / 2 ^ 1075" by (simp add: d_def power_int_minus divide_simps)
  have W0: "0 < W" using W by simp
  have TW: "0 \<le> T / W" using T W0 by simp
  have TW_le: "T / W \<le> T" using T W by (simp add: divide_le_eq mult_le_cancel_left1 W0)
  have A0: "0 \<le> A" using W0 u by (simp add: A_def)
  have C0: "0 \<le> C" unfolding C_def using TW u by (intro mult_nonneg_nonneg) simp_all
  have a: "fl W \<le> A + d"
    using fl_upper [of W] W0 by (simp add: A_def u_def d_def algebra_simps)
  have b: "fl (T / W) \<le> C + d"
    using fl_upper [of "T / W"] TW by (simp add: C_def u_def d_def algebra_simps)
  have a0: "0 \<le> fl W" using W0 by (simp add: fl_nonneg)
  have b0: "0 \<le> fl (T / W)" using TW by (simp add: fl_nonneg)
  have P0: "0 \<le> fl W * s" using a0 s by simp
  have "fl W * s \<le> fl W * fl (T / W)"
    using s a0 by (simp add: mult_left_mono)
  also have "\<dots> \<le> (A + d) * (C + d)"
    using a b a0 b0 A0 d by (intro mult_mono) simp_all
  also have "\<dots> = A * C + d * (A + C + d)"
    by (simp add: algebra_simps)
  also have "A * C = T * ((1 + u) * (1 + u))"
    using W0 by (simp add: A_def C_def)
  finally have P: "fl W * s \<le> T * ((1 + u) * (1 + u)) + d * (A + C + d)" .
  have "A \<le> 2 ^ 63 * 2" using W u unfolding A_def u_def by (intro mult_mono) simp_all
  moreover have "C \<le> 2 ^ 31 * 2" using TW_le T TW unfolding C_def u_def by (intro mult_mono) simp_all
  ultimately have "A + C + d \<le> 2 ^ 65" using d_le by simp
  then have "d * (A + C + d) \<le> d * 2 ^ 65" using d by (simp add: mult_left_mono)
  also have "\<dots> \<le> 1 / 2 ^ 1075 * 2 ^ 65" using d_le by (simp add: mult_right_mono)
  finally have dd: "d * (A + C + d) \<le> 1 / 2 ^ 1010" by simp
  define B where "B = T * ((1 + u) * (1 + u)) + 1 / 2 ^ 1010"
  from P dd have PB: "fl W * s \<le> B" by (simp add: B_def)
  have "fl (fl W * s) \<le> fl W * s + fl W * s / 2 ^ 53 + d"
    using fl_upper [OF P0] by (simp add: d_def)
  also have "\<dots> \<le> B + B / 2 ^ 53 + d"
    by (intro add_mono divide_right_mono PB order_refl) simp
  finally have F: "fl (fl W * s) \<le> B + B / 2 ^ 53 + d" .
  have k: "(1 + u) * (1 + u) \<le> 1 + 1 / 2 ^ 51" by (simp add: u_def)
  have "T * ((1 + u) * (1 + u)) \<le> T * (1 + 1 / 2 ^ 51)"
    using T k by (intro mult_left_mono) simp_all
  also have "\<dots> = T + T / 2 ^ 51" by (simp add: algebra_simps)
  also have "\<dots> \<le> T + 1 / 2 ^ 20" using T by simp
  finally have "B \<le> T + 1 / 2 ^ 20 + 1 / 2 ^ 1010" by (simp add: B_def)
  also have "\<dots> \<le> T + 1 / 8" by simp
  finally have B8: "B \<le> T + 1 / 8" .
  with T have "B \<le> 2 ^ 53 / 8" by simp
  then have B53: "B / 2 ^ 53 \<le> 1 / 8" by simp
  have "(1::rat) / 2 ^ 1075 \<le> 1 / 8" by simp
  with d_le have d8: "d \<le> 1 / 8" by (rule order_trans)
  from F B8 B53 d8 show ?thesis by linarith
qed


lemma fl_lower:
  assumes "0 \<le> x"
  shows "x - x / 2 ^ 53 - 2 powi (- 1075) \<le> fl x"
proof (cases "x = 0")
  case True
  then show ?thesis by (simp add: fl_def)
next
  case False
  with assms have x: "0 < x" by simp
  let ?q = "quantum x"
  have "x - x / 2 ^ 53 - 2 powi (- 1075) = x - (x / 2 ^ 52 + 2 powi (- 1074)) / 2"
    by (simp add: power_int_def field_simps)
  also have "\<dots> \<le> x - ?q / 2"
    using quantum_le [OF x] by simp
  also have "\<dots> = (x / ?q - 1 / 2) * ?q"
    using quantum_pos [of x] by (simp add: field_simps)
  also have "\<dots> \<le> of_int (round_half_even (x / ?q)) * ?q"
    using round_half_even_ge [of "x / ?q"] quantum_pos [of x]
    by (simp only: mult_le_cancel_right) simp
  also have "\<dots> = fl x"
    using x by (simp add: fl_def)
  finally show ?thesis .
qed

lemma fl_product_near:
  fixes W T s :: rat
  assumes W: "1 \<le> W" "W < 2 ^ 63"
    and T: "0 \<le> T" "T < 2 ^ 31"
    and s: "0 \<le> s" "s \<le> fl (T / W)"
  shows "W * s - 1 / 2 ^ 18 \<le> fl (fl W * s)" and "fl (fl W * s) \<le> W * s + 1 / 2 ^ 18"
proof -
  define d :: rat where "d = 2 powi (- 1075)"
  have d0: "0 \<le> d" by (simp add: d_def)
  have d_le: "d \<le> 1 / 2 ^ 1075" by (simp add: d_def power_int_minus divide_simps)
  have "(1::rat) / 2 ^ 1075 \<le> 1 / 2 ^ 128" by simp
  with d_le have d128: "d \<le> 1 / 2 ^ 128" by (rule order_trans)
  have W0: "0 < W" using W by simp
  have TW: "0 \<le> T / W" using T W0 by simp
  have "s \<le> T / W + T / W / 2 ^ 53 + d"
    using s(2) fl_upper [OF TW] by (simp add: d_def)
  then have "W * s \<le> W * (T / W + T / W / 2 ^ 53 + d)"
    using W0 by (simp add: mult_left_mono)
  also have "\<dots> = T + T / 2 ^ 53 + W * d"
    using W0 by (simp add: algebra_simps)
  finally have Ws1: "W * s \<le> T + T / 2 ^ 53 + W * d" .
  have "W * d \<le> 2 ^ 63 * (1 / 2 ^ 128)"
    using W d0 d128 by (intro mult_mono) simp_all
  then have Wd: "W * d \<le> 1" by simp
  have "T / 2 ^ 53 \<le> 1" using T by simp
  with Ws1 Wd T have Ws: "W * s \<le> 2 ^ 32" by simp
  have Ws0: "0 \<le> W * s" using W0 s by simp
  have "1 * s \<le> W * s" using W s by (intro mult_right_mono) simp_all
  with Ws have s32: "s \<le> 2 ^ 32" by simp
  have "d * s \<le> 1 / 2 ^ 128 * 2 ^ 32"
    using d0 d128 s s32 by (intro mult_mono) simp_all
  then have ds: "d * s \<le> 1 / 2 ^ 96" by simp
  have ds0: "0 \<le> d * s" using d0 s by simp
  have Ws53: "W * s / 2 ^ 53 \<le> 1 / 2 ^ 21" using Ws by simp
  have f0: "0 \<le> fl W" using W0 by (intro fl_nonneg) simp
  have fu: "fl W \<le> W + W / 2 ^ 53 + d"
    using fl_upper [of W] W0 by (simp add: d_def)
  have fl: "W - W / 2 ^ 53 - d \<le> fl W"
    using fl_lower [of W] W0 by (simp add: d_def)
  have "fl W * s \<le> (W + W / 2 ^ 53 + d) * s"
    using fu s by (intro mult_right_mono) simp_all
  also have "\<dots> = W * s + W * s / 2 ^ 53 + d * s"
    by (simp add: algebra_simps)
  finally have Pu: "fl W * s \<le> W * s + 1 / 2 ^ 21 + 1 / 2 ^ 96"
    using Ws53 ds by linarith
  have "(W - W / 2 ^ 53 - d) * s \<le> fl W * s"
    using fl s by (intro mult_right_mono) simp_all
  moreover have "(W - W / 2 ^ 53 - d) * s = W * s - W * s / 2 ^ 53 - d * s"
    by (simp add: algebra_simps)
  ultimately have Pl: "W * s - 1 / 2 ^ 21 - 1 / 2 ^ 96 \<le> fl W * s"
    using Ws53 ds by linarith
  have P0: "0 \<le> fl W * s" using f0 s by simp
  have "fl W * s \<le> 2 ^ 33" using Pu Ws by simp
  then have "fl W * s / 2 ^ 53 \<le> 2 ^ 33 / 2 ^ 53" by (intro divide_right_mono) simp_all
  also have "\<dots> = 1 / 2 ^ 20" by simp
  finally have P53: "fl W * s / 2 ^ 53 \<le> 1 / 2 ^ 20" .
  have Fu: "fl (fl W * s) \<le> fl W * s + fl W * s / 2 ^ 53 + d"
    using fl_upper [OF P0] by (simp add: d_def)
  have Fl: "fl W * s - fl W * s / 2 ^ 53 - d \<le> fl (fl W * s)"
    using fl_lower [OF P0] by (simp add: d_def)
  have k: "(1::rat) / 2 ^ 21 + 1 / 2 ^ 96 + 1 / 2 ^ 20 + 1 / 2 ^ 128 \<le> 1 / 2 ^ 18" by simp
  from Fl Pl P53 d128 k show "W * s - 1 / 2 ^ 18 \<le> fl (fl W * s)" by linarith
  from Fu Pu P53 d128 k show "fl (fl W * s) \<le> W * s + 1 / 2 ^ 18" by linarith
qed

lemma overflows_small:
  assumes "0 \<le> x" and "x < 2 ^ 64"
  shows "\<not> overflows x"
proof -
  have "fl x \<le> x + x / 2 ^ 53 + 2 powi (- 1075)" using assms(1) by (rule fl_upper)
  moreover have "(2::rat) powi (- 1075) \<le> 1"
    by (simp add: power_int_minus divide_simps)
  moreover have "x / 2 ^ 53 \<le> x" using assms(1) by (simp add: divide_le_eq)
  ultimately have "fl x < 2 ^ 66" using assms(2) by simp
  moreover have "(2::rat) ^ 66 \<le> 2 ^ 1024" by (rule power_increasing) simp_all
  moreover have "0 \<le> fl x" using assms(1) by (rule fl_nonneg)
  ultimately show ?thesis by (simp add: overflows_def)
qed

lemma truediv_ok:
  assumes "0 < b" and "0 \<le> a" and "a < 2 ^ 31"
  shows "truediv a b = Inr (fl (of_int a / of_int b))"
proof -
  have "(of_int a :: rat) / of_int b \<le> of_int a"
    using assms(1,2) by (simp add: divide_le_eq mult_le_cancel_left1)
  moreover have "(of_int a :: rat) < 2 ^ 31"
    using assms(3) by (metis of_int_less_numeral_power_cancel_iff)
  moreover have "(2::rat) ^ 31 \<le> 2 ^ 64" by (rule power_increasing) simp_all
  ultimately have "(of_int a :: rat) / of_int b < 2 ^ 64" by linarith
  moreover have "0 \<le> (of_int a :: rat) / of_int b" using assms(1,2) by simp
  ultimately have "\<not> overflows (of_int a / of_int b)" by (intro overflows_small)
  with assms(1) show ?thesis by (simp add: truediv_def)
qed

lemma py_min_le: "py_min a b \<le> a" "py_min a b \<le> b"
  by (simp_all add: py_min_def)

lemma py_min_nonneg: "0 \<le> a \<Longrightarrow> 0 \<le> b \<Longrightarrow> 0 \<le> py_min a b"
  by (simp add: py_min_def)

lemma int_of_product_ok:
  assumes n: "0 < n" "n < 2 ^ 63"
    and t: "0 \<le> t" "t < 2 ^ 31"
    and s: "0 \<le> s" "s \<le> fl (of_int t / of_int n)"
  shows "int_of_product n s = Inr (trunc (fl (fl (of_int n) * s)))"
    and "0 \<le> trunc (fl (fl (of_int n) * s))"
    and "trunc (fl (fl (of_int n) * s)) \<le> t"
proof -
  let ?P = "fl (of_int n) * s"
  have W: "(1::rat) \<le> of_int n" "(of_int n :: rat) < 2 ^ 63"
    using n by (simp_all add: of_int_less_numeral_power_cancel_iff)
  have T: "(0::rat) \<le> of_int t" "(of_int t :: rat) < 2 ^ 31"
    using t by (simp_all add: of_int_less_numeral_power_cancel_iff)
  have lt: "fl ?P < of_int t + 1"
    using W T s by (rule fl_product_bound)
  have "0 \<le> fl (rat_of_int n)" using W by (intro fl_nonneg) simp
  with s have P0: "0 \<le> ?P" by simp
  then have F0: "0 \<le> fl ?P" by (rule fl_nonneg)
  have "(of_int n :: rat) < 2 ^ 64" using W(2) by simp
  with W have o1: "\<not> overflows (of_int n)" by (intro overflows_small) simp_all
  have "fl ?P < 2 ^ 31 + 1" using lt T by simp
  also have "\<dots> \<le> (2::rat) ^ 1024" by simp
  finally have o2: "\<not> overflows ?P" using F0 by (simp add: overflows_def)
  from o1 o2 show "int_of_product n s = Inr (trunc (fl ?P))"
    by (simp add: int_of_product_def)
  from F0 show "0 \<le> trunc (fl ?P)" by (simp add: trunc_def)
  from lt have "\<lfloor>fl ?P\<rfloor> \<le> t" by (simp add: floor_le_iff)
  with F0 show "trunc (fl ?P) \<le> t" by (simp add: trunc_def)
qed



lemma scaled_size_near:
  assumes w: "0 < w" "w < 2 ^ 63" and h: "0 < h" "h < 2 ^ 63"
    and tw: "0 \<le> target_width" "target_width < 2 ^ 31"
    and th: "0 \<le> target_height" "target_height < 2 ^ 31"
    and sz: "scaled_size w h target_width target_height = Inr (new_width, new_height)"
  shows "\<exists>a b. truediv target_width w = Inr a \<and> truediv target_height h = Inr b \<and>
           int_of_product w (py_min a b) = Inr new_width \<and>
           int_of_product h (py_min a b) = Inr new_height \<and>
           of_int w * py_min a b - 1 - 1 / 2 ^ 18 < of_int new_width \<and>
           of_int new_width \<le> of_int w * py_min a b + 1 / 2 ^ 18 \<and>
           of_int h * py_min a b - 1 - 1 / 2 ^ 18 < of_int new_height \<and>
           of_int new_height \<le> of_int h * py_min a b + 1 / 2 ^ 18"
proof -
  let ?a = "fl (of_int target_width / of_int w)"
  let ?b = "fl (of_int target_height / of_int h)"
  let ?s = "py_min ?a ?b"
  have a: "truediv target_width w = Inr ?a" using w(1) tw by (rule truediv_ok)
  have b: "truediv target_height h = Inr ?b" using h(1) th by (rule truediv_ok)
  have a0: "0 \<le> ?a" using w tw by (intro fl_nonneg) simp
  have b0: "0 \<le> ?b" using h th by (intro fl_nonneg) simp
  have s0: "0 \<le> ?s" using a0 b0 by (rule py_min_nonneg)
  note pw = int_of_product_ok [OF w tw s0 py_min_le(1)]
  note ph = int_of_product_ok [OF h th s0 py_min_le(2)]
  from sz have nw: "new_width = trunc (fl (fl (of_int w) * ?s))"
    and nh: "new_height = trunc (fl (fl (of_int h) * ?s))"
    by (simp_all add: scaled_size_def a b Let_def pw(1) ph(1))
  have W: "(1::rat) \<le> of_int w" "(of_int w :: rat) < 2 ^ 63"
    using w by (simp_all add: of_int_less_numeral_power_cancel_iff)
  have H: "(1::rat) \<le> of_int h" "(of_int h :: rat) < 2 ^ 63"
    using h by (simp_all add: of_int_less_numeral_power_cancel_iff)
  have TW: "(0::rat) \<le> of_int target_width" "(of_int target_width :: rat) < 2 ^ 31"
    using tw by (simp_all add: of_int_less_numeral_power_cancel_iff)
  have TH: "(0::rat) \<le> of_int target_height" "(of_int target_height :: rat) < 2 ^ 31"
    using th by (simp_all add: of_int_less_numeral_power_cancel_iff)
  note fw = fl_product_near [OF W TW s0 py_min_le(1)]
  note fh = fl_product_near [OF H TH s0 py_min_le(2)]
  have floor: "x - 1 < of_int (trunc x) \<and> of_int (trunc x) \<le> x" if "0 \<le> x" for x :: rat
    using that by (simp add: trunc_def) linarith
  have F0: "0 \<le> fl (fl (of_int w) * ?s)" "0 \<le> fl (fl (of_int h) * ?s)"
    using W H s0 by (auto intro!: fl_nonneg mult_nonneg_nonneg)
  from floor [OF F0(1)] fw
  have bw: "of_int w * ?s - 1 - 1 / 2 ^ 18 < of_int new_width"
    "of_int new_width \<le> of_int w * ?s + 1 / 2 ^ 18"
    unfolding nw by linarith+
  from floor [OF F0(2)] fh
  have bh: "of_int h * ?s - 1 - 1 / 2 ^ 18 < of_int new_height"
    "of_int new_height \<le> of_int h * ?s + 1 / 2 ^ 18"
    unfolding nh by linarith+
  from a b pw(1) ph(1) bw bh show ?thesis
    unfolding nw [symmetric] nh [symmetric]
    by (intro exI [of _ ?a] exI [of _ ?b] conjI)
qed






subsection \<open>The scaled size and the paste\<close>














end
